theory Spec2Isabelle
  imports Main "HOL-Library.Word"
begin

section \<open>CSVParser.h: a shallow embedding\<close>

text \<open>
  The header defines four things: \<open>convertFromString\<close> (one field to one typed value),
  \<open>CSVRow\<close> (one line split into cells, and the cells converted to a tuple),
  \<open>CSVParserIterator\<close> (the cursor over the lines of a file) and \<open>CSVParser\<close> (the
  range handed to a range-based \<open>for\<close>). Each is translated below in the order of the header.
\<close>

subsection \<open>Outcomes of a call\<close>

text \<open>
  A C++ call returns, throws, or has undefined behaviour. The three are kept apart:
  \<open>Thrown\<close> carries the exception, \<open>Undefined\<close> names the operation whose precondition the
  call broke (\<open>front()\<close> or \<open>back()\<close> of an empty \<open>std::string\<close>, \<open>operator[]\<close> of a
  \<open>std::vector\<close> at or past its size, \<open>++\<close> of an \<open>int\<close> at \<open>INT_MAX\<close>).

  \<open>std::invalid_argument\<close> keeps no message here: the message of the source ends with
  \<open>typeid(T).name()\<close>, which the implementation chooses, and every \<open>catch (...)\<close> of the
  header drops it. \<open>CSVParseException\<close> carries its message, its line (a C++ \<open>int\<close>) and
  its column. The column is always a template argument \<open>Index\<close>, a position in the
  parameter pack, so it is a natural number far below \<open>2 ^ 31\<close> and the conversion to
  \<open>int\<close> leaves it as it is.
\<close>

datatype exn =
    InvalidArgument
  | CSVParseException string "32 word" nat

datatype fault =
    EmptyStringAccess
  | VectorOutOfBounds nat
  | SignedOverflow

datatype 'a result =
    Ok 'a
  | Thrown exn
  | Undefined fault

definition and_then :: "'a result \<Rightarrow> ('a \<Rightarrow> 'b result) \<Rightarrow> 'b result" where
  "and_then r f = (case r of Ok x \<Rightarrow> f x | Thrown e \<Rightarrow> Thrown e | Undefined u \<Rightarrow> Undefined u)"

subsection \<open>The library calls the header makes\<close>

text \<open>
  \<open>std::getline(is, str, delim)\<close> on a stream whose unread characters are \<open>ss\<close>: it
  extracts characters up to the first \<open>delim\<close> (extracted and dropped) or to the end of the
  input; when it extracts nothing at all it sets \<open>failbit\<close> and the call converts to
  \<open>false\<close>. A stream is its unread characters: once they are used up every later call
  fails. The same function reads the lines of the file, with the newline as delimiter.
\<close>

definition getline :: "string \<Rightarrow> char \<Rightarrow> (string \<times> string) option" where
  "getline ss delim =
     (if ss = [] then None
      else Some (takeWhile (\<lambda>c. c \<noteq> delim) ss, drop 1 (dropWhile (\<lambda>c. c \<noteq> delim) ss)))"

text \<open>
  \<open>s.substr(pos, n)\<close> for \<open>pos \<le> s.size()\<close>: the three calls of \<open>parse\<close> are made on a
  non-empty cell with \<open>pos \<le> 1\<close>, so \<open>std::out_of_range\<close> is never thrown.
  \<open>s.substr(pos)\<close> is \<open>substr s pos npos\<close>, the rest of the string from \<open>pos\<close> on.
  \<open>size_sub\<close> is the subtraction of two \<open>size_t\<close> (both below \<open>2 ^ 64\<close>), which wraps
  around: \<open>cell.size() - 2\<close> of a cell of one character is \<open>2 ^ 64 - 1\<close>.
\<close>

definition substr :: "string \<Rightarrow> nat \<Rightarrow> nat \<Rightarrow> string" where
  "substr s pos n = take n (drop pos s)"

definition size_sub :: "nat \<Rightarrow> nat \<Rightarrow> nat" where
  "size_sub a b = (if b \<le> a then a - b else a + 2 ^ 64 - b)"

definition npos :: nat where
  "npos = 2 ^ 64 - 1"

text \<open>\<open>v[i]\<close> of a \<open>std::vector\<close>: defined only below \<open>v.size()\<close>.\<close>

definition at :: "'a list \<Rightarrow> nat \<Rightarrow> 'a result" where
  "at v i = (if i < length v then Ok (v ! i) else Undefined (VectorOutOfBounds i))"

text \<open>
  \<open>ss >> value\<close> for \<open>int value\<close> on a fresh \<open>std::stringstream\<close> (flags \<open>skipws\<close> and
  \<open>dec\<close>, the classic locale): leading white space is skipped; an optional sign and the
  longest run of decimal digits are read; no digit, or a value outside \<open>int\<close>, sets
  \<open>failbit\<close>; \<open>eofbit\<close> is set when the read ran into the end of the input. The result
  is the value (\<open>None\<close> when \<open>failbit\<close> is set) and \<open>eofbit\<close>.
\<close>

definition isspace :: "char \<Rightarrow> bool" where
  "isspace c = (c \<in> set [CHR '' '', CHR 0x09, CHR 0x0A, CHR 0x0B, CHR 0x0C, CHR 0x0D])"

definition isdigit :: "char \<Rightarrow> bool" where
  "isdigit c = (c \<in> set ''0123456789'')"

definition digit_val :: "char \<Rightarrow> int" where
  "digit_val c = of_char c - 48"

definition decimal :: "string \<Rightarrow> int" where
  "decimal ds = foldl (\<lambda>a c. 10 * a + digit_val c) 0 ds"

definition INT_MAX :: int where
  "INT_MAX = 2147483647"

definition INT_MIN :: int where
  "INT_MIN = - 2147483648"

definition extract_int :: "string \<Rightarrow> int option \<times> bool" where
  "extract_int s =
     (let s1 = dropWhile isspace s in
      if s1 = [] then (None, True)
      else
        let neg = (hd s1 = CHR ''-'');
            s2 = (if hd s1 = CHR ''-'' \<or> hd s1 = CHR ''+'' then tl s1 else s1);
            ds = takeWhile isdigit s2;
            eof = (dropWhile isdigit s2 = []);
            v = (if neg then - decimal ds else decimal ds)
        in if ds = [] then (None, eof)
           else if v < INT_MIN \<or> INT_MAX < v then (None, eof)
           else (Some v, eof))"

subsection \<open>convertFromString\<close>

text \<open>
  The template is instantiated at the types of a schema. \<open>TString\<close> is \<open>std::string\<close>
  and \<open>TInt\<close> is \<open>int\<close> (32 bits); a value of \<open>int\<close> is kept as the integer it denotes,
  which \<open>extract_int\<close> bounds.
\<close>

datatype ctype = TString | TInt

datatype cvalue = VString string | VInt int

fun convertFromString :: "ctype \<Rightarrow> string \<Rightarrow> cvalue result" where
  "convertFromString TString str = Ok (VString str)"
| "convertFromString TInt str =
     (case extract_int str of
        (None, eof) \<Rightarrow> Thrown InvalidArgument
      | (Some v, eof) \<Rightarrow> if \<not> eof then Thrown InvalidArgument else Ok (VInt v))"

subsection \<open>CSVRow\<close>

record CSVRow =
  LineNumber :: "64 word"
  row_values :: "string list"
  delimiter :: char
  quote :: char

text \<open>
  The loop of \<open>parse\<close>: \<open>ss\<close> is the unread part of the line, \<open>inQuotes\<close> the flag and
  \<open>vals\<close> the vector \<open>values\<close>. Either branch starts by evaluating \<open>cell.front()\<close> or
  \<open>cell.back()\<close>, which require a non-empty string.
\<close>

function parse_loop :: "char \<Rightarrow> char \<Rightarrow> string \<Rightarrow> bool \<Rightarrow> string list \<Rightarrow> string list result" where
  "parse_loop delim q ss inQuotes vals =
     (case getline ss delim of
        None \<Rightarrow> Ok vals
      | Some (cell, ss') \<Rightarrow>
          if \<not> inQuotes then
            (if cell = [] then Undefined EmptyStringAccess
             else if hd cell = q \<and> last cell = q then
               parse_loop delim q ss' False (vals @ [substr cell 1 (size_sub (length cell) 2)])
             else if hd cell = q then
               parse_loop delim q ss' True (vals @ [substr cell 1 npos])
             else parse_loop delim q ss' False (vals @ [cell]))
          else
            (if cell = [] then Undefined EmptyStringAccess
             else if last cell = q then
               parse_loop delim q ss' False (vals @ [substr cell 0 (size_sub (length cell) 1)])
             else parse_loop delim q ss' True (vals @ [cell])))"
  by pat_completeness auto
termination
proof -
  have shorter: "length ss' < length ss" if g: "getline ss delim = Some (cell, ss')"
    for ss delim cell ss'
  proof -
    from g have ne: "ss \<noteq> []" and eq: "ss' = drop 1 (dropWhile (\<lambda>c. c \<noteq> delim) ss)"
      by (auto simp: getline_def split: if_splits)
    have "length (dropWhile (\<lambda>c. c \<noteq> delim) ss) \<le> length ss"
      by (rule length_dropWhile_le)
    with ne show ?thesis
      by (cases ss) (auto simp: eq)
  qed
  show ?thesis
    by (relation "measure (\<lambda>(delim, q, ss, inQuotes, vals). length ss)")
       (auto dest: shorter)
qed

definition parse :: "CSVRow \<Rightarrow> string \<Rightarrow> CSVRow result" where
  "parse row line =
     and_then (parse_loop (delimiter row) (quote row) line False (row_values row))
       (\<lambda>vals. Ok (row\<lparr>row_values := vals\<rparr>))"

definition CSVRow_new :: "string \<Rightarrow> char \<Rightarrow> char \<Rightarrow> 64 word \<Rightarrow> CSVRow result" where
  "CSVRow_new line delim q lineNumber =
     (let row = \<lparr>LineNumber = lineNumber, row_values = [], delimiter = delim, quote = q\<rparr>
      in if line \<noteq> [] then parse row line else Ok row)"

text \<open>
  \<open>convertToTuple<Index, T, Rest...>\<close>. The tuple is the list of its components.
  \<open>catch (...)\<close> turns whatever \<open>convertFromString\<close> throws into a \<open>CSVParseException\<close>
  with the row's line (\<open>size_t\<close> to \<open>int\<close>) and \<open>Index\<close>.
\<close>

fun convertToTuple :: "nat \<Rightarrow> ctype \<Rightarrow> ctype list \<Rightarrow> CSVRow \<Rightarrow> cvalue list result" where
  "convertToTuple Index T Rest row =
     and_then (at (row_values row) Index) (\<lambda>str.
       case convertFromString T str of
         Thrown e \<Rightarrow> Thrown (CSVParseException ''Error parsing value'' (ucast (LineNumber row)) Index)
       | Undefined u \<Rightarrow> Undefined u
       | Ok v \<Rightarrow>
           (case Rest of
              [] \<Rightarrow> Ok [v]
            | T' # Rest' \<Rightarrow>
                and_then (convertToTuple (Index + 1) T' Rest' row) (\<lambda>rest. Ok (v # rest))))"

text \<open>
  The second overload, \<open>convertToTuple<T>\<close>, whose exception has line 0 and column 0.
  No call of the header selects it: \<open>getValues\<close> and the recursive call both write
  \<open>convertToTuple<Index, ...>\<close> with a number as first template argument, which cannot
  be the type parameter \<open>T\<close> of this overload, so overload resolution drops it also for
  a schema of one type.
\<close>

definition convertToTuple_single :: "ctype \<Rightarrow> CSVRow \<Rightarrow> cvalue list result" where
  "convertToTuple_single T row =
     and_then (at (row_values row) 0) (\<lambda>str.
       case convertFromString T str of
         Thrown e \<Rightarrow> Thrown (CSVParseException ''Error parsing value'' 0 0)
       | Undefined u \<Rightarrow> Undefined u
       | Ok v \<Rightarrow> Ok [v])"

text \<open>
  \<open>getValues\<close> of a \<open>CSVRow<T, Rest...>\<close>. (\<open>CSVRow<>\<close> does not compile: no overload
  of \<open>convertToTuple\<close> takes \<open><0>\<close> alone.)
\<close>

definition getValues :: "ctype \<Rightarrow> ctype list \<Rightarrow> CSVRow \<Rightarrow> cvalue list result" where
  "getValues T Rest row = convertToTuple 0 T Rest row"

subsection \<open>CSVParserIterator\<close>

text \<open>
  The iterator holds a pointer to the file of the parser. Only the iterator made by
  \<open>begin()\<close> reads from it, and \<open>begin()\<close> is called once (by the range-based \<open>for\<close>),
  so the unread characters of the file are kept in that iterator. The fields
  \<open>file\<close> and \<open>end\<close> are called \<open>file_in\<close> and \<open>ended\<close>, the field \<open>values\<close> of
  \<open>CSVRow\<close> is called \<open>row_values\<close>.
\<close>

record CSVParserIterator =
  file_in :: string
  currentRow :: CSVRow
  ended :: bool
  lineNumber :: "32 word"

definition advance :: "CSVParserIterator \<Rightarrow> CSVParserIterator result" where
  "advance it =
     (case getline (file_in it) (CHR 0x0A) of
        Some (line, rest) \<Rightarrow>
          if lineNumber it = 0x7FFFFFFF then Undefined SignedOverflow
          else
            and_then (CSVRow_new line (CHR '','') (CHR 0x22) (scast (lineNumber it + 1)))
              (\<lambda>row. Ok (it\<lparr>file_in := rest, currentRow := row, lineNumber := lineNumber it + 1\<rparr>))
      | None \<Rightarrow> Ok (it\<lparr>ended := True\<rparr>))"

definition CSVParserIterator_new :: "string \<Rightarrow> bool \<Rightarrow> char \<Rightarrow> char \<Rightarrow> CSVParserIterator result" where
  "CSVParserIterator_new f e delim q =
     and_then (CSVRow_new [] delim q 0) (\<lambda>row.
       let it = \<lparr>file_in = f, currentRow = row, ended = e, lineNumber = 0\<rparr>
       in if \<not> e then advance it else Ok it)"

text \<open>\<open>operator*\<close> at a schema, \<open>operator++\<close> and \<open>operator!=\<close>.\<close>

definition deref :: "ctype \<Rightarrow> ctype list \<Rightarrow> CSVParserIterator \<Rightarrow> cvalue list result" where
  "deref T Rest it = getValues T Rest (currentRow it)"

definition increment :: "CSVParserIterator \<Rightarrow> CSVParserIterator result" where
  "increment it = advance it"

definition neq :: "CSVParserIterator \<Rightarrow> CSVParserIterator \<Rightarrow> bool" where
  "neq it other = (ended it \<noteq> ended other)"

text \<open>\<open>n\<close> times \<open>++it\<close>, as the range-based \<open>for\<close> of \<open>main\<close> does between two rows.\<close>

fun advances :: "nat \<Rightarrow> CSVParserIterator \<Rightarrow> CSVParserIterator result" where
  "advances 0 it = Ok it"
| "advances (Suc n) it = and_then (increment it) (advances n)"

subsection \<open>CSVParser\<close>

record CSVParser =
  p_file :: string
  p_delimiter :: char
  p_quote :: char

text \<open>The loop of the constructor: \<open>skipLines\<close> calls of \<open>getline\<close>, results ignored.\<close>

fun skip_lines :: "nat \<Rightarrow> string \<Rightarrow> string" where
  "skip_lines 0 f = f"
| "skip_lines (Suc n) f =
     skip_lines n (case getline f (CHR 0x0A) of None \<Rightarrow> f | Some (line, rest) \<Rightarrow> rest)"

definition CSVParser_new :: "string \<Rightarrow> nat \<Rightarrow> char \<Rightarrow> char \<Rightarrow> CSVParser" where
  "CSVParser_new f skipLines delim q =
     \<lparr>p_file = skip_lines skipLines f, p_delimiter = delim, p_quote = q\<rparr>"

definition begin_it :: "CSVParser \<Rightarrow> CSVParserIterator result" where
  "begin_it p = CSVParserIterator_new (p_file p) False (p_delimiter p) (p_quote p)"

definition end_it :: "CSVParser \<Rightarrow> CSVParserIterator result" where
  "end_it p = CSVParserIterator_new (p_file p) True (p_delimiter p) (p_quote p)"

section \<open>Properties\<close>

lemmas lib_defs = getline_def substr_def size_sub_def npos_def at_def and_then_def

lemmas conv_defs = extract_int_def isspace_def isdigit_def digit_val_def decimal_def
  INT_MAX_def INT_MIN_def

lemmas row_defs = CSVRow_new_def parse_def getValues_def parse_loop.simps

lemmas iter_defs = CSVParser_new_def begin_it_def end_it_def CSVParserIterator_new_def
  advance_def increment_def deref_def neq_def

declare parse_loop.simps [simp del]

declare convertToTuple.simps [simp del]

subsection \<open>Outcomes\<close>

lemma and_then_Ok: "and_then r f = Ok y \<Longrightarrow> \<exists>x. r = Ok x \<and> f x = Ok y"
  by (cases r) (simp_all add: and_then_def)

lemma and_then_Thrown:
  "and_then r f = Thrown e \<Longrightarrow> r = Thrown e \<or> (\<exists>x. r = Ok x \<and> f x = Thrown e)"
  by (cases r) (simp_all add: and_then_def)

lemma convertFromString_defined: "convertFromString T str \<noteq> Undefined u"
  by (cases T) (auto split: prod.splits option.splits)

subsection \<open>The tokenizer\<close>

text \<open>
  What \<open>getline\<close> reads from a line: the last cell when no delimiter is left (also when
  the delimiter is the last character of the line), and otherwise the cell before the first
  delimiter.
\<close>

lemma getline_last_cell:
  assumes "ss \<noteq> []" and "delim \<notin> set ss"
  shows "getline ss delim = Some (ss, [])" and "getline (ss @ [delim]) delim = Some (ss, [])"
proof -
  have all: "\<forall>c\<in>set ss. c \<noteq> delim"
    using assms(2) by auto
  have t: "takeWhile (\<lambda>c. c \<noteq> delim) ss = ss"
    and d: "dropWhile (\<lambda>c. c \<noteq> delim) ss = []"
    using all by simp_all
  show "getline ss delim = Some (ss, [])"
    unfolding getline_def t d using assms(1) by simp
  have t': "takeWhile (\<lambda>c. c \<noteq> delim) (ss @ [delim]) = ss"
    and d': "dropWhile (\<lambda>c. c \<noteq> delim) (ss @ [delim]) = [delim]"
    using all by simp_all
  show "getline (ss @ [delim]) delim = Some (ss, [])"
    unfolding getline_def t' d' by simp
qed

lemma getline_cell:
  assumes "delim \<notin> set cell"
  shows "getline (cell @ delim # rest) delim = Some (cell, rest)"
proof -
  have all: "\<forall>c\<in>set cell. c \<noteq> delim"
    using assms by auto
  have t: "takeWhile (\<lambda>c. c \<noteq> delim) (cell @ delim # rest) = cell"
    and d: "dropWhile (\<lambda>c. c \<noteq> delim) (cell @ delim # rest) = delim # rest"
    using all by simp_all
  show ?thesis
    unfolding getline_def t d by simp
qed

lemma parse_loop_Nil: "parse_loop delim q [] inQuotes vals = Ok vals"
  by (subst parse_loop.simps) (simp add: getline_def)

lemma parse_loop_empty_cell:
  "parse_loop delim q (delim # ss) inQuotes vals = Undefined EmptyStringAccess"
  by (subst parse_loop.simps) (simp add: getline_def)

text \<open>
  A delimiter at the end of a line adds no token, and a line that does not end with the
  delimiter and is split without an empty cell has one token more than it has delimiters.
\<close>

lemma parse_loop_trailing_delimiter:
  assumes "ss \<noteq> []" and "last ss \<noteq> delim"
  shows "parse_loop delim q (ss @ [delim]) inQuotes vals = parse_loop delim q ss inQuotes vals"
  using assms
proof (induction "length ss" arbitrary: ss inQuotes vals rule: less_induct)
  case less
  show ?case
  proof (cases "delim \<in> set ss")
    case False
    with less.prems(1) have
      g: "getline ss delim = Some (ss, [])" "getline (ss @ [delim]) delim = Some (ss, [])"
      by (simp_all add: getline_last_cell)
    show ?thesis
      by (subst parse_loop.simps [of delim q "ss @ [delim]"], subst parse_loop.simps [of delim q ss])
         (simp add: g)
  next
    case True
    then obtain cell rest where ss: "ss = cell @ delim # rest" and cell: "delim \<notin> set cell"
      by (auto dest: split_list_first)
    from less.prems(2) ss have rest: "rest \<noteq> []" "last rest \<noteq> delim"
      by auto
    have g: "getline ss delim = Some (cell, rest)"
      "getline (ss @ [delim]) delim = Some (cell, rest @ [delim])"
      using cell getline_cell [of delim cell rest] getline_cell [of delim cell "rest @ [delim]"]
      by (simp_all add: ss)
    have IH: "parse_loop delim q (rest @ [delim]) b vs = parse_loop delim q rest b vs" for b vs
      using rest by (intro less.hyps) (simp_all add: ss)
    show ?thesis
      by (subst parse_loop.simps [of delim q "ss @ [delim]"], subst parse_loop.simps [of delim q ss])
         (simp add: g IH cong: if_cong)
  qed
qed

lemma parse_loop_token_count:
  assumes "parse_loop delim q ss inQuotes vals = Ok toks" and "ss \<noteq> []" and "last ss \<noteq> delim"
  shows "length toks = length vals + count_list ss delim + 1"
  using assms
proof (induction "length ss" arbitrary: ss inQuotes vals rule: less_induct)
  case less
  show ?case
  proof (cases "delim \<in> set ss")
    case False
    with less.prems(2) have g: "getline ss delim = Some (ss, [])"
      by (simp add: getline_last_cell)
    from False have c: "count_list ss delim = 0"
      by simp
    from less.prems(1) show ?thesis
      by (subst (asm) parse_loop.simps)
         (auto simp: g c parse_loop_Nil split: if_splits)
  next
    case True
    then obtain cell rest where ss: "ss = cell @ delim # rest" and cell: "delim \<notin> set cell"
      by (auto dest: split_list_first)
    from less.prems(3) ss have rest: "rest \<noteq> []" "last rest \<noteq> delim"
      by auto
    have g: "getline ss delim = Some (cell, rest)"
      using cell getline_cell [of delim cell rest] by (simp add: ss)
    have c: "count_list ss delim = Suc (count_list rest delim)"
      using cell by (simp add: ss)
    have IH: "length toks = length vs + count_list rest delim + 1"
      if "parse_loop delim q rest b vs = Ok toks" for b vs
      using that rest by (intro less.hyps [of rest b vs]) (simp_all add: ss)
    from less.prems(1) obtain b x where "parse_loop delim q rest b (vals @ [x]) = Ok toks"
      by (subst (asm) parse_loop.simps) (simp add: g split: if_splits; blast)
    then have "length toks = length (vals @ [x]) + count_list rest delim + 1"
      by (rule IH)
    then show ?thesis
      by (simp add: c)
  qed
qed

text \<open>
  Claim C3. An empty cell is to be emitted as an unquoted empty field without a look at
  its first or last character. The line \<open>a,,b\<close> has an empty second cell: \<open>parse\<close>
  calls \<open>cell.front()\<close> on it, which is undefined for an empty string, and no row is built.
\<close>

theorem parse_empty_cell_undefined:
  "CSVRow_new ''a,,b'' (CHR '','') (CHR 0x22) 1 = Undefined EmptyStringAccess"
  by (simp add: lib_defs row_defs)

text \<open>
  Claim C5. The number of tokens is to be the number of delimiters plus one, a trailing
  empty cell included. The line \<open>a,\<close> has one delimiter and yields the single token
  \<open>a\<close>: after the delimiter nothing is left to extract, so the last \<open>getline\<close> fails
  and the loop ends without the empty cell.
\<close>

theorem parse_drops_trailing_empty_cell:
  "CSVRow_new ''a,'' (CHR '','') (CHR 0x22) 1 =
     Ok \<lparr>LineNumber = 1, row_values = [''a''], delimiter = CHR '','', quote = CHR 0x22\<rparr>"
  by (simp add: lib_defs row_defs)

subsection \<open>The row decoder\<close>

text \<open>
  \<open>convertToTuple\<close> reads \<open>values[Index]\<close> for the positions of the schema and nothing
  else: a row with fewer tokens, all of which convert, is read one past its last token;
  tokens beyond the arity of the schema are never looked at.
\<close>

lemma convertToTuple_short_row:
  assumes "Index \<le> length (row_values row)"
    and "length (row_values row) - Index < length (T # Rest)"
    and "\<forall>j < length (row_values row) - Index.
           \<exists>v. convertFromString ((T # Rest) ! j) (row_values row ! (Index + j)) = Ok v"
  shows "convertToTuple Index T Rest row = Undefined (VectorOutOfBounds (length (row_values row)))"
  using assms
proof (induction Rest arbitrary: Index T)
  case Nil
  then show ?case
    by (subst convertToTuple.simps) (simp add: at_def and_then_def)
next
  case (Cons T' Rest')
  show ?case
  proof (cases "Index = length (row_values row)")
    case True
    then show ?thesis
      by (subst convertToTuple.simps) (simp add: at_def and_then_def)
  next
    case False
    with Cons.prems(1) have here: "Index < length (row_values row)"
      by simp
    with Cons.prems(3) obtain v where v: "convertFromString T (row_values row ! Index) = Ok v"
      by fastforce
    have a1: "Suc Index \<le> length (row_values row)"
      using here by simp
    have a2: "length (row_values row) - Suc Index < length (T' # Rest')"
      using Cons.prems(2) here by simp
    have a3: "\<forall>j < length (row_values row) - Suc Index.
           \<exists>v. convertFromString ((T' # Rest') ! j) (row_values row ! (Suc Index + j)) = Ok v"
    proof (intro allI impI)
      fix j assume "j < length (row_values row) - Suc Index"
      then have "Suc j < length (row_values row) - Index" by simp
      with Cons.prems(3)
      have "\<exists>v. convertFromString ((T # T' # Rest') ! Suc j) (row_values row ! (Index + Suc j)) = Ok v"
        by blast
      then show "\<exists>v. convertFromString ((T' # Rest') ! j) (row_values row ! (Suc Index + j)) = Ok v"
        by simp
    qed
    have rec: "convertToTuple (Suc Index) T' Rest' row =
        Undefined (VectorOutOfBounds (length (row_values row)))"
      by (rule Cons.IH [OF a1 a2 a3])
    show ?thesis
      by (subst convertToTuple.simps) (simp add: at_def and_then_def here v rec)
  qed
qed

lemma convertToTuple_reads_schema_prefix:
  assumes "LineNumber r1 = LineNumber r2"
    and "Index + length (T # Rest) \<le> length (row_values r1)"
    and "Index + length (T # Rest) \<le> length (row_values r2)"
    and "\<forall>j < length (T # Rest). row_values r1 ! (Index + j) = row_values r2 ! (Index + j)"
  shows "convertToTuple Index T Rest r1 = convertToTuple Index T Rest r2"
  using assms
proof (induction Rest arbitrary: Index T)
  case Nil
  then show ?case
    by (subst (1 2) convertToTuple.simps) (simp add: at_def and_then_def split: result.splits)
next
  case (Cons T' Rest')
  have same: "row_values r1 ! Index = row_values r2 ! Index"
    using Cons.prems(4) by fastforce
  have a4: "\<forall>j < length (T' # Rest'). row_values r1 ! (Suc Index + j) = row_values r2 ! (Suc Index + j)"
  proof (intro allI impI)
    fix j assume "j < length (T' # Rest')"
    then have "Suc j < length (T # T' # Rest')" by simp
    with Cons.prems(4) have "row_values r1 ! (Index + Suc j) = row_values r2 ! (Index + Suc j)"
      by blast
    then show "row_values r1 ! (Suc Index + j) = row_values r2 ! (Suc Index + j)" by simp
  qed
  have rec: "convertToTuple (Suc Index) T' Rest' r1 = convertToTuple (Suc Index) T' Rest' r2"
    using Cons.prems(1-3) a4 by (intro Cons.IH) simp_all
  show ?case
    using Cons.prems(1-3)
    by (subst (1 2) convertToTuple.simps)
       (simp add: at_def and_then_def same rec split: result.splits)
qed

lemma getValues_ignores_extra_tokens:
  assumes "length vals = length (T # Rest)"
  shows "getValues T Rest (row\<lparr>row_values := vals @ extra\<rparr>) =
         getValues T Rest (row\<lparr>row_values := vals\<rparr>)"
  unfolding getValues_def
  using assms
  by (intro convertToTuple_reads_schema_prefix) (simp_all add: nth_append)

text \<open>
  Claim C2. A row whose number of tokens differs from the arity of the schema is to give
  a \<open>CSVParseException\<close> at column \<open>min (number of tokens) N\<close>. With the schema
  \<open>{int, int}\<close> the line \<open>1\<close> makes \<open>convertToTuple\<close> read \<open>values[1]\<close> of a vector of
  size one, and the line \<open>1,2,3\<close> gives the record \<open>(1, 2)\<close>: the third token is
  dropped without an error.
\<close>

theorem getValues_field_count_mismatch:
  "and_then (CSVRow_new ''1'' (CHR '','') (CHR 0x22) 1) (getValues TInt [TInt]) =
     Undefined (VectorOutOfBounds 1)
   \<and> and_then (CSVRow_new ''1,2,3'' (CHR '','') (CHR 0x22) 1) (getValues TInt [TInt]) =
     Ok [VInt 1, VInt 2]"
  by (simp add: lib_defs row_defs conv_defs convertToTuple.simps)

text \<open>
  Claim C6. An empty line is to give one empty token (schema of one column) or a
  field-count error (more columns). The constructor of \<open>CSVRow\<close> does not call \<open>parse\<close>
  on an empty line, so the row has no token at all, and \<open>getValues\<close> reads \<open>values[0]\<close>
  of an empty vector, for every schema; so does the stream on a file that is one empty line.
\<close>

theorem empty_line_getValues_undefined:
  "CSVRow_new [] delim q n =
     Ok \<lparr>LineNumber = n, row_values = [], delimiter = delim, quote = q\<rparr>
   \<and> and_then (CSVRow_new [] delim q n) (getValues T Rest) = Undefined (VectorOutOfBounds 0)
   \<and> and_then (begin_it (CSVParser_new [CHR 0x0A] 0 delim q)) (deref T Rest) =
     Undefined (VectorOutOfBounds 0)"
  by (simp add: lib_defs row_defs iter_defs convertToTuple.simps)

text \<open>
  The recursion of \<open>convertToTuple\<close> stops at the first field that does not convert:
  the exception carries the position of that field, whatever follows it in the row.
\<close>

lemma convertToTuple_first_failure:
  assumes "i < length (T # Rest)"
    and "Index + i < length (row_values row)"
    and "\<forall>j<i. \<exists>v. convertFromString ((T # Rest) ! j) (row_values row ! (Index + j)) = Ok v"
    and "convertFromString ((T # Rest) ! i) (row_values row ! (Index + i)) = Thrown e"
  shows "convertToTuple Index T Rest row =
           Thrown (CSVParseException ''Error parsing value'' (ucast (LineNumber row)) (Index + i))"
  using assms
proof (induction i arbitrary: Index T Rest)
  case 0
  then show ?case
    by (subst convertToTuple.simps) (simp add: at_def and_then_def)
next
  case (Suc i)
  from Suc.prems(1) obtain T' Rest' where Rest: "Rest = T' # Rest'"
    by (cases Rest) auto
  from Suc.prems(3) obtain v where v: "convertFromString T (row_values row ! Index) = Ok v"
    by fastforce
  have here: "Index < length (row_values row)"
    using Suc.prems(2) by simp
  have a1: "i < length (T' # Rest')"
    using Suc.prems(1) by (simp add: Rest)
  have a2: "Suc Index + i < length (row_values row)"
    using Suc.prems(2) by simp
  have a3: "\<forall>j<i. \<exists>v. convertFromString ((T' # Rest') ! j) (row_values row ! (Suc Index + j)) = Ok v"
  proof (intro allI impI)
    fix j assume "j < i"
    then have "Suc j < Suc i" by simp
    with Suc.prems(3)
    have "\<exists>v. convertFromString ((T # Rest) ! Suc j) (row_values row ! (Index + Suc j)) = Ok v"
      by blast
    then show "\<exists>v. convertFromString ((T' # Rest') ! j) (row_values row ! (Suc Index + j)) = Ok v"
      by (simp add: Rest)
  qed
  have a4: "convertFromString ((T' # Rest') ! i) (row_values row ! (Suc Index + i)) = Thrown e"
    using Suc.prems(4) by (simp add: Rest)
  have rec: "convertToTuple (Suc Index) T' Rest' row =
      Thrown (CSVParseException ''Error parsing value'' (ucast (LineNumber row)) (Suc Index + i))"
    by (rule Suc.IH [OF a1 a2 a3 a4])
  show ?case
    by (subst convertToTuple.simps) (simp add: at_def and_then_def here v Rest rec)
qed

text \<open>
  Claim C4. For a row of \<open>N\<close> tokens and a schema of \<open>N\<close> types, if field \<open>i\<close> is the
  first whose conversion fails, \<open>getValues\<close> throws one \<open>CSVParseException\<close> whose column
  is \<open>i\<close> (and whose line is the row's), so no record is returned; and the outcome is the
  same whatever stands in the row after field \<open>i\<close>: the later fields are not converted.
\<close>

theorem getValues_first_failure:
  assumes "length (row_values row) = length (T # Rest)"
    and "i < length (T # Rest)"
    and "\<forall>j<i. \<exists>v. convertFromString ((T # Rest) ! j) (row_values row ! j) = Ok v"
    and "convertFromString ((T # Rest) ! i) (row_values row ! i) = Thrown e"
  shows "getValues T Rest row =
           Thrown (CSVParseException ''Error parsing value'' (ucast (LineNumber row)) i)
       \<and> (\<forall>later. getValues T Rest (row\<lparr>row_values := take (Suc i) (row_values row) @ later\<rparr>) =
           Thrown (CSVParseException ''Error parsing value'' (ucast (LineNumber row)) i))"
proof (intro conjI allI)
  show "getValues T Rest row =
          Thrown (CSVParseException ''Error parsing value'' (ucast (LineNumber row)) i)"
    using convertToTuple_first_failure [of i T Rest 0 row e] assms
    by (simp add: getValues_def)
next
  fix later
  let ?row = "row\<lparr>row_values := take (Suc i) (row_values row) @ later\<rparr>"
  have len: "i < length (row_values row)"
    using assms(1,2) by simp
  have same: "row_values ?row ! j = row_values row ! j" if "j \<le> i" for j
    using that len by (simp add: nth_append)
  have "convertToTuple 0 T Rest ?row =
      Thrown (CSVParseException ''Error parsing value'' (ucast (LineNumber ?row)) (0 + i))"
  proof (rule convertToTuple_first_failure [where e = e])
    show "i < length (T # Rest)" by (rule assms(2))
    show "0 + i < length (row_values ?row)" using len by simp
    show "\<forall>j<i. \<exists>v. convertFromString ((T # Rest) ! j) (row_values ?row ! (0 + j)) = Ok v"
      using assms(3) same by (simp del: CSVRow.simps)
    show "convertFromString ((T # Rest) ! i) (row_values ?row ! (0 + i)) = Thrown e"
      using assms(4) same [of i] by (simp del: CSVRow.simps)
  qed
  then show "getValues T Rest ?row =
      Thrown (CSVParseException ''Error parsing value'' (ucast (LineNumber row)) i)"
    by (simp add: getValues_def)
qed

theorem getValues_first_failure_witness:
  "getValues TString [TInt, TString]
     \<lparr>LineNumber = 7, row_values = [''Bob'', ''thirty'', ''5.5''],
      delimiter = CHR '','', quote = CHR 0x22\<rparr> =
   Thrown (CSVParseException ''Error parsing value'' 7 1)
   \<and> getValues TString [TInt, TString]
     \<lparr>LineNumber = 7, row_values = [''Bob'', ''thirty''],
      delimiter = CHR '','', quote = CHR 0x22\<rparr> =
   Thrown (CSVParseException ''Error parsing value'' 7 1)"
proof -
  let ?row = "\<lparr>LineNumber = 7, row_values = [''Bob'', ''thirty'', ''5.5''],
               delimiter = CHR '','', quote = CHR 0x22\<rparr>"
  have h1: "length (row_values ?row) = length [TString, TInt, TString]"
    by simp
  have h2: "(1::nat) < length [TString, TInt, TString]"
    by simp
  have h3: "\<forall>j<1. \<exists>v. convertFromString ([TString, TInt, TString] ! j) (row_values ?row ! j) = Ok v"
    by simp
  have h4: "convertFromString ([TString, TInt, TString] ! 1) (row_values ?row ! 1) =
      Thrown InvalidArgument"
    by (simp add: conv_defs)
  from getValues_first_failure [OF h1 h2 h3 h4] have
    "getValues TString [TInt, TString] ?row =
       Thrown (CSVParseException ''Error parsing value'' (ucast (LineNumber ?row)) 1)"
    and "getValues TString [TInt, TString]
          (?row\<lparr>row_values := take (Suc 1) (row_values ?row) @ []\<rparr>) =
       Thrown (CSVParseException ''Error parsing value'' (ucast (LineNumber ?row)) 1)"
    by blast+
  then show ?thesis
    by simp
qed

subsection \<open>The stream\<close>

lemma skip_lines_numeral:
  "skip_lines (numeral k) f =
     skip_lines (pred_numeral k)
       (case getline f (CHR 0x0A) of None \<Rightarrow> f | Some (line, rest) \<Rightarrow> rest)"
  by (simp add: numeral_eq_Suc)

text \<open>
  Every row that \<open>advance\<close> builds is built with the comma and the double quote; the
  delimiter and the quote given to the parser reach only the empty row the iterator starts
  with.
\<close>

lemma advance_row_built_with_defaults:
  assumes "advance it = Ok it'" and "getline (file_in it) (CHR 0x0A) = Some (line, rest)"
  shows "CSVRow_new line (CHR '','') (CHR 0x22) (scast (lineNumber it + 1)) = Ok (currentRow it')"
  using assms
  by (auto simp: advance_def split: if_splits dest!: and_then_Ok)

text \<open>
  Claim C1. A stream made with delimiter \<open>d\<close> and quote \<open>q\<close> is to split each line with
  \<open>d\<close> and \<open>q\<close>. The parser made with the semicolon as delimiter over the file \<open>a;b\<close>
  yields a first row with the single token \<open>a;b\<close>, split at commas, where \<open>CSVRow\<close> with
  the semicolon yields the two tokens \<open>a\<close> and \<open>b\<close>.
\<close>

theorem advance_ignores_configured_delimiter:
  "begin_it (CSVParser_new ''a;b'' 0 (CHR '';'') (CHR 0x22)) =
     Ok \<lparr>file_in = [],
         currentRow = \<lparr>LineNumber = 1, row_values = [''a;b''],
                       delimiter = CHR '','', quote = CHR 0x22\<rparr>,
         ended = False, lineNumber = 1\<rparr>
   \<and> CSVRow_new ''a;b'' (CHR '';'') (CHR 0x22) 1 =
     Ok \<lparr>LineNumber = 1, row_values = [''a'', ''b''],
         delimiter = CHR '';'', quote = CHR 0x22\<rparr>"
  by (simp add: lib_defs row_defs iter_defs)

text \<open>
  Once \<open>getline\<close> finds nothing to read, \<open>++\<close> sets the flag \<open>end\<close> and changes nothing
  else, so the file stays exhausted.
\<close>

lemma advances_exhausted:
  "getline (file_in it) (CHR 0x0A) = None \<Longrightarrow>
   advances n it = Ok (if n = 0 then it else it\<lparr>ended := True\<rparr>)"
proof (induction n arbitrary: it)
  case 0
  then show ?case by simp
next
  case (Suc n)
  have step: "increment it = Ok (it\<lparr>ended := True\<rparr>)"
    using Suc.prems by (simp add: increment_def advance_def)
  have "getline (file_in (it\<lparr>ended := True\<rparr>)) (CHR 0x0A) = None"
    using Suc.prems by simp
  then have "advances n (it\<lparr>ended := True\<rparr>) =
      Ok (if n = 0 then it\<lparr>ended := True\<rparr> else it\<lparr>ended := True\<rparr>\<lparr>ended := True\<rparr>)"
    by (rule Suc.IH)
  then show ?case
    by (simp add: step and_then_def)
qed

text \<open>
  Claim C7. Once the file yields no more lines, every number \<open>n > 0\<close> of further pulls
  (\<open>++it\<close>) returns normally, with nothing thrown, and leaves the iterator with its flag
  \<open>end\<close> set and otherwise unchanged; compared with the iterator of \<open>end()\<close> it is not
  different, which is how the range-based \<open>for\<close> sees that there are no more rows.
\<close>

theorem exhausted_stays_exhausted:
  assumes "getline (file_in it) (CHR 0x0A) = None" and "0 < n" and "end_it p = Ok e"
  shows "advances n it = Ok (it\<lparr>ended := True\<rparr>) \<and> \<not> neq (it\<lparr>ended := True\<rparr>) e"
proof
  show "advances n it = Ok (it\<lparr>ended := True\<rparr>)"
    using advances_exhausted [OF assms(1), of n] assms(2) by simp
  have "ended e"
    using assms(3)
    by (auto simp: end_it_def CSVParserIterator_new_def CSVRow_new_def and_then_def)
  then show "\<not> neq (it\<lparr>ended := True\<rparr>) e"
    by (simp add: neq_def)
qed

theorem exhausted_stays_exhausted_witness:
  "advances 3
     \<lparr>file_in = [],
      currentRow = \<lparr>LineNumber = 1, row_values = [''1'', ''2''],
                    delimiter = CHR '','', quote = CHR 0x22\<rparr>,
      ended = False, lineNumber = 1\<rparr> =
   Ok \<lparr>file_in = [],
       currentRow = \<lparr>LineNumber = 1, row_values = [''1'', ''2''],
                     delimiter = CHR '','', quote = CHR 0x22\<rparr>,
       ended = True, lineNumber = 1\<rparr>
   \<and> \<not> neq
     \<lparr>file_in = [],
      currentRow = \<lparr>LineNumber = 1, row_values = [''1'', ''2''],
                    delimiter = CHR '','', quote = CHR 0x22\<rparr>,
      ended = True, lineNumber = 1\<rparr>
     \<lparr>file_in = ''1,2'',
      currentRow = \<lparr>LineNumber = 0, row_values = [],
                    delimiter = CHR '','', quote = CHR 0x22\<rparr>,
      ended = True, lineNumber = 0\<rparr>"
proof -
  let ?it = "\<lparr>file_in = [],
      currentRow = \<lparr>LineNumber = 1, row_values = [''1'', ''2''],
                    delimiter = CHR '','', quote = CHR 0x22\<rparr>,
      ended = False, lineNumber = 1\<rparr>"
  let ?e = "\<lparr>file_in = ''1,2'',
      currentRow = \<lparr>LineNumber = 0, row_values = [],
                    delimiter = CHR '','', quote = CHR 0x22\<rparr>,
      ended = True, lineNumber = 0\<rparr>"
  have h1: "getline (file_in ?it) (CHR 0x0A) = None"
    by (simp add: getline_def)
  have h2: "(0::nat) < 3"
    by simp
  have h3: "end_it (CSVParser_new ''1,2'' 0 (CHR '','') (CHR 0x22)) = Ok ?e"
    by (simp add: iter_defs row_defs lib_defs)
  from exhausted_stays_exhausted [OF h1 h2 h3] show ?thesis
    by simp
qed

text \<open>
  Claim C8. The parser made with \<open>skipLines = 1\<close> over the two lines \<open>header\<close> and
  \<open>1,2\<close> reads the first line in its constructor, with no row made of it; the iterator
  of \<open>begin()\<close> holds the row of \<open>1,2\<close> with line number 1, and \<open>*it\<close> at the schema
  \<open>{int, int}\<close> is the record \<open>(1, 2)\<close>. With a field of that row replaced by one that
  does not convert, the exception reports line 1.
\<close>

theorem skip_header_scenario:
  "p_file (CSVParser_new ''header\<newline>1,2'' 1 (CHR '','') (CHR 0x22)) = ''1,2''
   \<and> begin_it (CSVParser_new ''header\<newline>1,2'' 1 (CHR '','') (CHR 0x22)) =
     Ok \<lparr>file_in = [],
         currentRow = \<lparr>LineNumber = 1, row_values = [''1'', ''2''],
                       delimiter = CHR '','', quote = CHR 0x22\<rparr>,
         ended = False, lineNumber = 1\<rparr>
   \<and> and_then (begin_it (CSVParser_new ''header\<newline>1,2'' 1 (CHR '','') (CHR 0x22)))
        (deref TInt [TInt]) = Ok [VInt 1, VInt 2]
   \<and> and_then (begin_it (CSVParser_new ''header\<newline>x,2'' 1 (CHR '','') (CHR 0x22)))
        (deref TInt [TInt]) = Thrown (CSVParseException ''Error parsing value'' 1 0)
   \<and> and_then (begin_it (CSVParser_new ''header\<newline>1,y'' 1 (CHR '','') (CHR 0x22)))
        (deref TInt [TInt]) = Thrown (CSVParseException ''Error parsing value'' 1 1)"
  by (simp add: lib_defs row_defs iter_defs conv_defs convertToTuple.simps)

subsection \<open>Line numbers\<close>

text \<open>
  The line of an exception is the row's \<open>LineNumber\<close>, which the iterator sets from its
  own counter: \<open>int\<close> to \<open>size_t\<close> in the constructor of the row, \<open>size_t\<close> to \<open>int\<close> in
  the constructor of the exception.
\<close>

lemma int_round_trip: "ucast (scast (w :: 32 word) :: 64 word) = w"
  by (rule bit_word_eqI) (simp add: bit_ucast_iff bit_signed_iff)

lemma CSVRow_new_LineNumber: "CSVRow_new line delim q n = Ok row \<Longrightarrow> LineNumber row = n"
  by (auto simp: CSVRow_new_def parse_def Let_def split: if_splits dest!: and_then_Ok)

lemma convertToTuple_Thrown:
  "convertToTuple Index T Rest row = Thrown e \<Longrightarrow>
   \<exists>col. e = CSVParseException ''Error parsing value'' (ucast (LineNumber row)) col"
proof (induction Rest arbitrary: Index T)
  case Nil
  then show ?case
    by (subst (asm) convertToTuple.simps)
       (auto simp: at_def and_then_def split: if_splits result.splits)
next
  case (Cons T' Rest')
  from Cons.prems show ?case
    by (subst (asm) convertToTuple.simps)
       (auto simp: at_def split: if_splits result.splits dest!: and_then_Thrown dest: Cons.IH)
qed

lemma advance_row:
  assumes "advance it = Ok it'" and "\<not> ended it'"
  shows "\<not> ended it \<and> lineNumber it \<noteq> 0x7FFFFFFF \<and> lineNumber it' = lineNumber it + 1
       \<and> LineNumber (currentRow it') = scast (lineNumber it')"
proof (cases "getline (file_in it) (CHR 0x0A)")
  case None
  with assms show ?thesis
    by (auto simp: advance_def)
next
  case (Some p)
  obtain line rest where p: "p = (line, rest)"
    by (cases p)
  from assms(1) Some p have ok: "lineNumber it \<noteq> 0x7FFFFFFF"
    by (auto simp: advance_def split: if_splits)
  with assms(1) Some p obtain row where
    row: "CSVRow_new line (CHR '','') (CHR 0x22) (scast (lineNumber it + 1)) = Ok row"
    and it': "it' = it\<lparr>file_in := rest, currentRow := row, lineNumber := lineNumber it + 1\<rparr>"
    by (auto simp: advance_def dest!: and_then_Ok)
  from row have "LineNumber row = scast (lineNumber it + 1)"
    by (rule CSVRow_new_LineNumber)
  with assms(2) ok it' show ?thesis
    by simp
qed

lemma advances_ended: "advances k j = Ok it' \<Longrightarrow> ended j \<Longrightarrow> ended it'"
proof (induction k arbitrary: j)
  case 0
  then show ?case by simp
next
  case (Suc k)
  from Suc.prems(1) obtain j1 where
    "advance j = Ok j1" and r: "advances k j1 = Ok it'"
    by (auto simp: increment_def dest!: and_then_Ok)
  with Suc.prems(2) have "ended j1"
    by (auto simp: advance_def split: option.splits if_splits dest!: and_then_Ok)
  with r show ?case by (rule Suc.IH)
qed

lemma count_step:
  assumes "m < 2 ^ 31" and "(of_nat m :: 32 word) \<noteq> 0x7FFFFFFF"
  shows "Suc m < 2 ^ 31"
proof -
  have "m \<noteq> 2147483647"
  proof
    assume "m = 2147483647"
    then have "(of_nat m :: 32 word) = 0x7FFFFFFF" by simp
    with assms(2) show False by simp
  qed
  with assms(1) show ?thesis by simp
qed

lemma advances_count:
  assumes "advances n it = Ok it'" and "\<not> ended it'"
    and "lineNumber it = of_nat m" and "m < 2 ^ 31"
    and "LineNumber (currentRow it) = scast (lineNumber it)"
  shows "lineNumber it' = of_nat (m + n) \<and> m + n < 2 ^ 31
       \<and> LineNumber (currentRow it') = scast (lineNumber it')"
  using assms
proof (induction n arbitrary: it m)
  case 0
  then show ?case by simp
next
  case (Suc n)
  from Suc.prems(1) obtain it1 where
    one: "advance it = Ok it1" and rest: "advances n it1 = Ok it'"
    by (auto simp: increment_def dest!: and_then_Ok)
  have "\<not> ended it1"
    using advances_ended [OF rest] Suc.prems(2) by blast
  with one have step: "lineNumber it \<noteq> 0x7FFFFFFF" "lineNumber it1 = lineNumber it + 1"
      "LineNumber (currentRow it1) = scast (lineNumber it1)"
    using advance_row by blast+
  have m1: "Suc m < 2 ^ 31"
    using count_step [OF Suc.prems(4)] step(1) Suc.prems(3) by simp
  have l1: "lineNumber it1 = of_nat (Suc m)"
    using step(2) Suc.prems(3) by simp
  from Suc.IH [OF rest Suc.prems(2) l1 m1 step(3)] show ?case
    by simp
qed

text \<open>
  Claim C9, as stated: the line of an error counts the lines skipped by \<open>skipLines\<close>, so
  that with \<open>skipLines = k\<close> an error in the first decoded row reports line \<open>k + 1\<close>.
  With two skipped lines the first decoded row reports line 1, not 3.
\<close>

theorem skipped_lines_not_counted_counterexample:
  "and_then (begin_it (CSVParser_new ''h1\<newline>h2\<newline>x,2'' 2 (CHR '','') (CHR 0x22)))
     (deref TInt [TInt]) = Thrown (CSVParseException ''Error parsing value'' 1 0)
   \<and> and_then (begin_it (CSVParser_new ''h1\<newline>h2\<newline>x,2'' 2 (CHR '','') (CHR 0x22)))
     (deref TInt [TInt]) \<noteq> Thrown (CSVParseException ''Error parsing value'' 3 0)"
  by (simp add: lib_defs row_defs iter_defs conv_defs convertToTuple.simps skip_lines_numeral)

text \<open>
  Claim C9, amended. The line of an error counts from 1 the lines the iterator has read,
  and the lines skipped by the constructor of the parser are not among them: whatever
  \<open>skipLines\<close> is, an exception thrown for the row reached by \<open>n\<close> increments after
  \<open>begin()\<close> has line \<open>n + 1\<close> (a number below \<open>2 ^ 31\<close>), so the first decoded row
  reports line 1.
\<close>

theorem error_line_counts_rows_pulled:
  assumes "begin_it (CSVParser_new f k delim q) = Ok it0"
    and "advances n it0 = Ok it"
    and "\<not> ended it"
    and "deref T Rest it = Thrown e"
  shows "Suc n < 2 ^ 31
       \<and> (\<exists>col. e = CSVParseException ''Error parsing value'' (of_nat (Suc n)) col)"
proof -
  let ?init = "\<lparr>file_in = p_file (CSVParser_new f k delim q),
                currentRow = \<lparr>LineNumber = 0, row_values = [], delimiter = delim, quote = q\<rparr>,
                ended = False, lineNumber = 0\<rparr>"
  have b: "advances (Suc n) ?init = Ok it"
    using assms(1,2)
    by (simp add: begin_it_def CSVParserIterator_new_def CSVRow_new_def CSVParser_new_def
          and_then_def increment_def)
  have "lineNumber it = of_nat (0 + Suc n) \<and> 0 + Suc n < 2 ^ 31
       \<and> LineNumber (currentRow it) = scast (lineNumber it)"
    by (rule advances_count [OF b assms(3)]) simp_all
  then have n: "Suc n < 2 ^ 31"
    and l: "ucast (LineNumber (currentRow it)) = (of_nat (Suc n) :: 32 word)"
    by (simp_all add: int_round_trip)
  from assms(4) have "\<exists>col. e = CSVParseException ''Error parsing value''
      (ucast (LineNumber (currentRow it))) col"
    by (auto simp: deref_def getValues_def dest: convertToTuple_Thrown)
  with n l show ?thesis by simp
qed

theorem error_line_counts_rows_pulled_witness:
  "begin_it (CSVParser_new ''h1\<newline>h2\<newline>1,2\<newline>3,y'' 2 (CHR '';'') (CHR 0x22)) =
     Ok \<lparr>file_in = ''3,y'',
         currentRow = \<lparr>LineNumber = 1, row_values = [''1'', ''2''],
                       delimiter = CHR '','', quote = CHR 0x22\<rparr>,
         ended = False, lineNumber = 1\<rparr>
   \<and> advances 1
       \<lparr>file_in = ''3,y'',
        currentRow = \<lparr>LineNumber = 1, row_values = [''1'', ''2''],
                      delimiter = CHR '','', quote = CHR 0x22\<rparr>,
        ended = False, lineNumber = 1\<rparr> =
     Ok \<lparr>file_in = [],
         currentRow = \<lparr>LineNumber = 2, row_values = [''3'', ''y''],
                       delimiter = CHR '','', quote = CHR 0x22\<rparr>,
         ended = False, lineNumber = 2\<rparr>
   \<and> deref TInt [TInt]
       \<lparr>file_in = [],
        currentRow = \<lparr>LineNumber = 2, row_values = [''3'', ''y''],
                      delimiter = CHR '','', quote = CHR 0x22\<rparr>,
        ended = False, lineNumber = 2\<rparr> =
     Thrown (CSVParseException ''Error parsing value'' 2 1)
   \<and> (\<exists>col. CSVParseException ''Error parsing value'' 2 1 =
          CSVParseException ''Error parsing value'' (of_nat (Suc 1)) col)"
proof -
  let ?first = "\<lparr>file_in = ''3,y'',
         currentRow = \<lparr>LineNumber = 1, row_values = [''1'', ''2''],
                       delimiter = CHR '','', quote = CHR 0x22\<rparr>,
         ended = False, lineNumber = 1\<rparr>"
  let ?second = "\<lparr>file_in = [],
         currentRow = \<lparr>LineNumber = 2, row_values = [''3'', ''y''],
                       delimiter = CHR '','', quote = CHR 0x22\<rparr>,
         ended = False, lineNumber = 2\<rparr>"
  have h1: "begin_it (CSVParser_new ''h1\<newline>h2\<newline>1,2\<newline>3,y'' 2 (CHR '';'') (CHR 0x22)) = Ok ?first"
    by (simp add: lib_defs row_defs iter_defs skip_lines_numeral)
  have h2: "advances 1 ?first = Ok ?second"
    by (simp add: lib_defs row_defs iter_defs)
  have h3: "\<not> ended ?second"
    by simp
  have h4: "deref TInt [TInt] ?second = Thrown (CSVParseException ''Error parsing value'' 2 1)"
    by (simp add: lib_defs row_defs iter_defs conv_defs convertToTuple.simps)
  from error_line_counts_rows_pulled [OF h1 h2 h3 h4] h1 h2 h4 show ?thesis
    by simp
qed

subsection \<open>The value converter\<close>

lemma decimal_snoc: "decimal (ds @ [d]) = 10 * decimal ds + digit_val d"
  by (simp add: decimal_def)









end
